theory Spec2Isabelle
  imports Main
begin

text \<open>
  A model of \<open>internal/parser/type.go\<close>: the records \<open>Type\<close> and \<open>Field\<close>, and the functions
  \<open>NewType\<close>, \<open>getStruct\<close>, \<open>Parse\<close>, \<open>getFields\<close>, \<open>isPointer\<close>, \<open>isArray\<close>, \<open>getEnvSourceTag\<close>
  and \<open>cleanTypeStr\<close> under their own names. What they call in Go's standard library
  (\<open>strings\<close>, \<open>reflect\<close>, \<open>go/ast\<close>, \<open>go/types\<close>) is modelled first, from the library's
  documented behaviour.
\<close>

section \<open>Go strings and the library functions the parser calls\<close>

text \<open>
  A Go string is a sequence of bytes, so it is modelled as \<open>string\<close> (a \<open>char list\<close>).
  The functions of package \<open>strings\<close> below are modelled on bytes. \<open>TrimSpace\<close> knows the
  ASCII white space (Go's also trims the non-ASCII white space of Unicode, which is
  several bytes each).
\<close>

definition isSpace :: "char \<Rightarrow> bool" where
  "isSpace c = (c \<in> set [CHR 0x09, CHR 0x0A, CHR 0x0B, CHR 0x0C, CHR 0x0D, CHR 0x20])"

definition TrimSpace :: "string \<Rightarrow> string" where
  "TrimSpace s = rev (dropWhile isSpace (rev (dropWhile isSpace s)))"

definition TrimLeft :: "string \<Rightarrow> string \<Rightarrow> string" where
  "TrimLeft s cutset = dropWhile (\<lambda>c. c \<in> set cutset) s"

definition TrimRight :: "string \<Rightarrow> string \<Rightarrow> string" where
  "TrimRight s cutset = rev (dropWhile (\<lambda>c. c \<in> set cutset) (rev s))"

definition Trim :: "string \<Rightarrow> string \<Rightarrow> string" where
  "Trim s cutset = TrimRight (TrimLeft s cutset) cutset"

definition toUpperByte :: "char \<Rightarrow> char" where
  "toUpperByte c =
     (if (97::nat) \<le> of_char c \<and> of_char c \<le> (122::nat)
      then char_of (of_char c - (32::nat)) else c)"

text \<open>
  \<open>strings.ToUpper\<close> has two branches. A string of ASCII bytes only is upper-cased byte by
  byte. Any other string goes through \<open>strings.Map(unicode.ToUpper, s)\<close>, which decodes
  UTF-8 and consults the case tables of Unicode; that library function is the parameter
  \<open>upr\<close>.
\<close>

definition ToUpper :: "(string \<Rightarrow> string) \<Rightarrow> string \<Rightarrow> string" where
  "ToUpper upr s =
     (if list_all (\<lambda>c. (of_char c :: nat) < 128) s then map toUpperByte s else upr s)"

text \<open>
  An instance of \<open>upr\<close> for the concrete examples: it is \<open>strings.Map(unicode.ToUpper, s)\<close>
  on text made of ASCII, of the two-byte letters U+00E0 to U+00FE (without the division
  sign U+00F7), whose capitals are 32 code points below them, and of these capitals.
  Other code points are outside it.
\<close>

fun MapToUpperLatin1 :: "string \<Rightarrow> string" where
  "MapToUpperLatin1 [] = []"
| "MapToUpperLatin1 [c] = [toUpperByte c]"
| "MapToUpperLatin1 (c # d # ds) =
     (if c = CHR 0xC3 \<and> (160::nat) \<le> of_char d \<and> of_char d \<le> (190::nat)
         \<and> (of_char d :: nat) \<noteq> 183
      then c # char_of (of_char d - (32::nat)) # MapToUpperLatin1 ds
      else toUpperByte c # MapToUpperLatin1 (d # ds))"

subsection \<open>\<open>reflect.StructTag.Lookup\<close>\<close>

text \<open>
  \<open>Lookup\<close> scans a tag string of the conventional form \<open>key:"value" key:"value" ...\<close>:
  it skips blanks, reads a key up to the colon, reads the quoted value up to the first
  quote that is not escaped by a backslash, and either returns the unquoted value (when
  the key is the one asked for) or goes on with the rest. Any malformed piece ends the
  scan with "not found". The final unquoting is \<open>strconv.Unquote\<close>, which is taken as a
  parameter \<open>unq\<close> (\<open>None\<close> is its error result).
\<close>

definition isKeyByte :: "char \<Rightarrow> bool" where
  "isKeyByte c =
     ((32::nat) < of_char c \<and> c \<noteq> CHR '':'' \<and> c \<noteq> CHR 0x22 \<and> (of_char c :: nat) \<noteq> 127)"

text \<open>
  \<open>scanQuoted\<close> is the inner loop of \<open>Lookup\<close> that runs over the quoted value after its
  opening quote: it yields the bytes before the closing quote and the bytes after it,
  or \<open>None\<close> when the text ends first. A backslash makes the loop step over the next byte.
\<close>

fun scanQuoted :: "string \<Rightarrow> (string \<times> string) option" where
  "scanQuoted [] = None"
| "scanQuoted (c # cs) =
     (if c = CHR 0x22 then Some ([], cs)
      else if c = CHR 0x5C then
        (case cs of
           [] \<Rightarrow> None
         | d # ds \<Rightarrow> (case scanQuoted ds of
                        None \<Rightarrow> None
                      | Some (body, rest) \<Rightarrow> Some (c # d # body, rest)))
      else (case scanQuoted cs of
              None \<Rightarrow> None
            | Some (body, rest) \<Rightarrow> Some (c # body, rest)))"

function Lookup :: "(string \<Rightarrow> string option) \<Rightarrow> string \<Rightarrow> string \<Rightarrow> string option" where
  "Lookup unq tag key =
     (let tag1 = dropWhile (\<lambda>c. c = CHR '' '') tag in
      if tag1 = [] then None
      else
        let name = takeWhile isKeyByte tag1;
            tag2 = dropWhile isKeyByte tag1
        in if name = [] \<or> length tag2 \<le> 1 \<or> tag2 ! 0 \<noteq> CHR '':'' \<or> tag2 ! 1 \<noteq> CHR 0x22
           then None
           else (case scanQuoted (drop 2 tag2) of
                   None \<Rightarrow> None
                 | Some (body, tag3) \<Rightarrow>
                     if key = name then unq (CHR 0x22 # body @ [CHR 0x22])
                     else Lookup unq tag3 key))"
  by pat_completeness auto
termination
proof (relation "measure (\<lambda>(unq, tag, key). length tag)", goal_cases)
  case 1
  show ?case by simp
next
  case (2 unq tag key tag1 name tag2 sq body tag3)
  have shorter: "scanQuoted s = Some (b, r) \<Longrightarrow> length r < length s" for s b r
  proof (induction s arbitrary: b r rule: scanQuoted.induct)
    case 1
    then show ?case by simp
  next
    case (2 c cs)
    show ?case
    proof (cases "c = CHR 0x22")
      case True
      with 2(3) show ?thesis by simp
    next
      case notq: False
      show ?thesis
      proof (cases "c = CHR 0x5C")
        case True
        with notq 2(3) obtain d ds b' where cs: "cs = d # ds"
          and sq: "scanQuoted ds = Some (b', r)"
          by (auto split: list.splits option.splits)
        from 2(1) [OF notq True cs sq] show ?thesis using cs by simp
      next
        case False
        with notq 2(3) obtain b' where sq: "scanQuoted cs = Some (b', r)"
          by (auto split: option.splits)
        from 2(2) [OF notq False sq] show ?thesis by simp
      qed
    qed
  qed
  from 2 have "length tag3 < length (drop 2 tag2)"
    using shorter by metis
  moreover have "length tag2 \<le> length tag1"
    using 2 by (simp add: length_dropWhile_le)
  moreover have "length tag1 \<le> length tag"
    using 2 by (simp add: length_dropWhile_le)
  ultimately show ?case by simp
qed

declare Lookup.simps [simp del]

lemma Lookup_Nil: "Lookup unq [] key = None"
  by (simp add: Lookup.simps)

text \<open>
  The part of \<open>strconv.Unquote\<close> that needs no knowledge of escape sequences: a
  double-quoted ASCII string without backslash, inner quote or newline is unquoted to
  the text between its quotes. It instantiates \<open>unq\<close> in the concrete examples.
\<close>

definition UnquoteNoEscape :: "string \<Rightarrow> string option" where
  "UnquoteNoEscape q =
     (if length q \<ge> 2 \<and> hd q = CHR 0x22 \<and> last q = CHR 0x22
         \<and> list_all (\<lambda>c. c \<noteq> CHR 0x22 \<and> c \<noteq> CHR 0x5C \<and> c \<noteq> CHR 0x0A \<and> (of_char c :: nat) < 128)
               (butlast (tl q))
      then Some (butlast (tl q)) else None)"




section \<open>The parser's data\<close>

text \<open>\<open>Field\<close>: the metadata of one struct field.\<close>

record Field =
  Name :: string
  Type :: string
  EnvTag :: string
  IsPointer :: bool
  IsArray :: bool

text \<open>\<open>Type\<close>: the type definition that \<open>Parse\<close> fills in.\<close>

record Type =
  FileName :: string
  Name :: string
  Fields :: "Field list"
  Package :: string

definition NewType :: "string \<Rightarrow> Type" where
  "NewType name = \<lparr>FileName = '''', Name = name, Fields = [], Package = ''''\<rparr>"

section \<open>The syntax tree of \<open>go/ast\<close>\<close>

text \<open>
  Expressions (which include type expressions), struct fields, and the other nodes that
  \<open>ast.Inspect\<close> walks through. \<open>OtherExpr\<close> stands for every expression form not listed
  (function, interface and channel types, calls, function literals, ...): it carries
  the text \<open>types.ExprString\<close> renders it to and its child nodes. \<open>OtherNode\<close> stands for
  every other node (statements, import and value specs, comment groups, ...) with its
  child nodes in walking order.
\<close>

datatype ast_Expr =
    Ident string
  | BasicLit string
  | ParenExpr ast_Expr
  | SelectorExpr ast_Expr string
  | StarExpr ast_Expr
  | Ellipsis "ast_Expr option"
  | ArrayType "ast_Expr option" ast_Expr
  | MapType ast_Expr ast_Expr
  | StructType "ast_Field list"
  | OtherExpr string "ast_Node list"
and ast_Field =
    AstField (field_Names: "string list") (field_Type: ast_Expr) (field_Tag: "string option")
and ast_Node =
    ExprNode ast_Expr
  | FieldList "ast_Field list"
  | FieldNode ast_Field
  | TypeSpec string ast_Expr
  | GenDecl "ast_Node list"
  | FuncDecl "ast_Field list" string ast_Expr "ast_Node option"
  | BlockStmt "ast_Node list"
  | DeclStmt ast_Node
  | FileNode string "ast_Node list"
  | OtherNode "ast_Node list"

text \<open>\<open>ast.File\<close> as \<open>parser.ParseFile\<close> returns it: the package name and the declarations.\<close>

datatype ast_File = AstFile (file_Name: string) (file_Decls: "ast_Node list")

subsection \<open>\<open>types.ExprString\<close>\<close>

fun joinWith :: "string \<Rightarrow> string list \<Rightarrow> string" where
  "joinWith sep [] = []"
| "joinWith sep [x] = x"
| "joinWith sep (x # y # ys) = x @ sep @ joinWith sep (y # ys)"

primrec ExprString :: "ast_Expr \<Rightarrow> string"
  and writeField :: "ast_Field \<Rightarrow> string" where
  "ExprString (Ident name) = name"
| "ExprString (BasicLit v) = v"
| "ExprString (ParenExpr x) = ''('' @ ExprString x @ '')''"
| "ExprString (SelectorExpr x sel) = ExprString x @ ''.'' @ sel"
| "ExprString (StarExpr x) = ''*'' @ ExprString x"
| "ExprString (Ellipsis elt) = ''...'' @ (case map_option ExprString elt of None \<Rightarrow> [] | Some s \<Rightarrow> s)"
| "ExprString (ArrayType len elt) =
     ''['' @ (case map_option ExprString len of None \<Rightarrow> [] | Some s \<Rightarrow> s) @ '']'' @ ExprString elt"
| "ExprString (MapType k v) = ''map['' @ ExprString k @ '']'' @ ExprString v"
| "ExprString (StructType fl) = ''struct{'' @ joinWith ''; '' (map writeField fl) @ ''}''"
| "ExprString (OtherExpr rendered _) = rendered"
| "writeField (AstField names typ tag) =
     joinWith '', '' names @ (if length names > 0 then '' '' else []) @ ExprString typ"

section \<open>The field normalizer\<close>

definition isPointer :: "string \<Rightarrow> bool" where
  "isPointer typeName = (length typeName > 0 \<and> typeName ! 0 = CHR ''*'')"

definition isArray :: "string \<Rightarrow> bool" where
  "isArray typeName = (length typeName > 2 \<and> take 2 typeName = ''[]'')"

definition getEnvSourceTag ::
  "(string \<Rightarrow> string option) \<Rightarrow> (string \<Rightarrow> string) \<Rightarrow> string \<Rightarrow> string \<Rightarrow> string" where
  "getEnvSourceTag unq upr tags fieldName =
     (case Lookup unq tags ''env'' of
        None \<Rightarrow> ToUpper upr fieldName
      | Some tag \<Rightarrow> tag)"

definition cleanTypeStr :: "string \<Rightarrow> string" where
  "cleanTypeStr typ =
     (let typ1 = TrimSpace typ;
          typ2 = TrimLeft typ1 ''*'';
          typ3 = TrimLeft typ2 ''[]''
      in typ3)"

text \<open>
  The body of the loop of \<open>getFields\<close> over \<open>node.Fields.List\<close>: it appends to the slice \<open>fields\<close>
  (here \<open>flds\<close>) the records of one field declaration.
\<close>

definition getFields_body ::
  "(string \<Rightarrow> string option) \<Rightarrow> (string \<Rightarrow> string) \<Rightarrow> Field list \<Rightarrow> ast_Field \<Rightarrow> Field list" where
  "getFields_body unq upr flds field =
     (let tags = (case field_Tag field of
                    None \<Rightarrow> []
                  | Some v \<Rightarrow> Trim v ''`'')
      in if length (field_Names field) = 0 then
           (let fieldType = ExprString (field_Type field)
            in flds @ [\<lparr>Field.Name = [],
                          Type = cleanTypeStr fieldType,
                          EnvTag = getEnvSourceTag unq upr tags fieldType,
                          IsPointer = isPointer fieldType,
                          IsArray = isArray fieldType\<rparr>])
         else
           foldl (\<lambda>flds fieldName.
                    let fieldType = ExprString (field_Type field)
                    in flds @ [\<lparr>Field.Name = fieldName,
                                  Type = cleanTypeStr fieldType,
                                  EnvTag = getEnvSourceTag unq upr tags fieldName,
                                  IsPointer = isPointer fieldType,
                                  IsArray = isArray fieldType\<rparr>])
                 flds (field_Names field))"

definition getFields ::
  "(string \<Rightarrow> string option) \<Rightarrow> (string \<Rightarrow> string) \<Rightarrow> ast_Field list \<Rightarrow> Field list" where
  "getFields unq upr node = foldl (getFields_body unq upr) [] node"

section \<open>The type locator\<close>

text \<open>
  \<open>children\<close> lists the child nodes of a node in the order in which \<open>ast.Walk\<close> visits
  them. Comment groups and type parameter lists are left out; a node that has them can
  be given as an \<open>OtherNode\<close> with all its children.
\<close>

fun exprChildren :: "ast_Expr \<Rightarrow> ast_Node list" where
  "exprChildren (Ident _) = []"
| "exprChildren (BasicLit _) = []"
| "exprChildren (ParenExpr x) = [ExprNode x]"
| "exprChildren (SelectorExpr x sel) = [ExprNode x, ExprNode (Ident sel)]"
| "exprChildren (StarExpr x) = [ExprNode x]"
| "exprChildren (Ellipsis elt) = (case elt of None \<Rightarrow> [] | Some e \<Rightarrow> [ExprNode e])"
| "exprChildren (ArrayType len elt) =
     (case len of None \<Rightarrow> [] | Some l \<Rightarrow> [ExprNode l]) @ [ExprNode elt]"
| "exprChildren (MapType k v) = [ExprNode k, ExprNode v]"
| "exprChildren (StructType fl) = [FieldList fl]"
| "exprChildren (OtherExpr _ cs) = cs"

fun children :: "ast_Node \<Rightarrow> ast_Node list" where
  "children (ExprNode e) = exprChildren e"
| "children (FieldList fl) = map FieldNode fl"
| "children (FieldNode f) =
     map (\<lambda>n. ExprNode (Ident n)) (field_Names f) @ [ExprNode (field_Type f)]
     @ (case field_Tag f of None \<Rightarrow> [] | Some v \<Rightarrow> [ExprNode (BasicLit v)])"
| "children (TypeSpec name typ) = [ExprNode (Ident name), ExprNode typ]"
| "children (GenDecl specs) = specs"
| "children (FuncDecl recv name typ body) =
     (if recv = [] then [] else [FieldList recv]) @ [ExprNode (Ident name), ExprNode typ]
     @ (case body of None \<Rightarrow> [] | Some b \<Rightarrow> [b])"
| "children (BlockStmt stmts) = stmts"
| "children (DeclStmt d) = [d]"
| "children (FileNode name decls) = ExprNode (Ident name) # decls"
| "children (OtherNode cs) = cs"

text \<open>A weight that every child has less of than its parent: the measure of the walk.\<close>

primrec weightE :: "ast_Expr \<Rightarrow> nat"
  and weightF :: "ast_Field \<Rightarrow> nat"
  and weightN :: "ast_Node \<Rightarrow> nat" where
  "weightE (Ident _) = 0"
| "weightE (BasicLit _) = 0"
| "weightE (ParenExpr x) = Suc (weightE x)"
| "weightE (SelectorExpr x _) = Suc (weightE x)"
| "weightE (StarExpr x) = Suc (weightE x)"
| "weightE (Ellipsis elt) = (case map_option weightE elt of None \<Rightarrow> 0 | Some n \<Rightarrow> Suc n)"
| "weightE (ArrayType len elt) =
     Suc (weightE elt + (case map_option weightE len of None \<Rightarrow> 0 | Some n \<Rightarrow> Suc n))"
| "weightE (MapType k v) = Suc (weightE k + weightE v)"
| "weightE (StructType fl) = Suc (sum_list (map weightF fl))"
| "weightE (OtherExpr _ cs) = sum_list (map weightN cs)"
| "weightF (AstField _ typ _) = Suc (Suc (weightE typ))"
| "weightN (ExprNode e) = Suc (weightE e)"
| "weightN (FieldList fl) = Suc (sum_list (map weightF fl))"
| "weightN (FieldNode f) = weightF f"
| "weightN (TypeSpec _ typ) = Suc (Suc (weightE typ))"
| "weightN (GenDecl specs) = Suc (sum_list (map weightN specs))"
| "weightN (FuncDecl recv _ typ body) =
     Suc (Suc (Suc (sum_list (map weightF recv) + weightE typ
       + (case map_option weightN body of None \<Rightarrow> 0 | Some n \<Rightarrow> n))))"
| "weightN (BlockStmt stmts) = Suc (sum_list (map weightN stmts))"
| "weightN (DeclStmt d) = Suc (weightN d)"
| "weightN (FileNode _ decls) = Suc (Suc (sum_list (map weightN decls)))"
| "weightN (OtherNode cs) = Suc (sum_list (map weightN cs))"

lemma weight_exprChildren: "c \<in> set (exprChildren e) \<Longrightarrow> weightN c \<le> weightE e"
proof (cases e)
  case (OtherExpr r cs)
  assume "c \<in> set (exprChildren e)"
  with OtherExpr have "c \<in> set cs" by simp
  then have "weightN c \<le> sum_list (map weightN cs)"
    by (simp add: member_le_sum_list)
  with OtherExpr show ?thesis by simp
qed (auto split: option.splits)

lemma weight_children: "c \<in> set (children n) \<Longrightarrow> weightN c < weightN n"
proof (cases n)
  case (ExprNode e)
  assume "c \<in> set (children n)"
  with ExprNode show ?thesis using weight_exprChildren [of c e] by simp
next
  case (FieldList fl)
  assume "c \<in> set (children n)"
  with FieldList obtain f where "f \<in> set fl" "c = FieldNode f" by auto
  then have "weightN c \<le> sum_list (map weightF fl)"
    by (simp add: member_le_sum_list)
  with FieldList show ?thesis by simp
next
  case (FieldNode f)
  assume "c \<in> set (children n)"
  with FieldNode show ?thesis by (cases f) (auto split: option.splits)
next
  case (TypeSpec nm ty)
  assume "c \<in> set (children n)"
  with TypeSpec show ?thesis by auto
next
  case (GenDecl specs)
  assume "c \<in> set (children n)"
  with GenDecl have "weightN c \<le> sum_list (map weightN specs)"
    by (simp add: member_le_sum_list)
  with GenDecl show ?thesis by simp
next
  case (FuncDecl recv nm ty body)
  assume "c \<in> set (children n)"
  with FuncDecl show ?thesis by (auto split: option.splits if_splits)
next
  case (BlockStmt stmts)
  assume "c \<in> set (children n)"
  with BlockStmt have "weightN c \<le> sum_list (map weightN stmts)"
    by (simp add: member_le_sum_list)
  with BlockStmt show ?thesis by simp
next
  case (DeclStmt d)
  assume "c \<in> set (children n)"
  with DeclStmt show ?thesis by simp
next
  case (FileNode nm decls)
  assume c: "c \<in> set (children n)"
  show ?thesis
  proof (cases "c \<in> set decls")
    case True
    then have "weightN c \<le> sum_list (map weightN decls)"
      by (simp add: member_le_sum_list)
    with FileNode show ?thesis by simp
  next
    case False
    with c FileNode show ?thesis by simp
  qed
next
  case (OtherNode cs)
  assume "c \<in> set (children n)"
  with OtherNode have "weightN c \<le> sum_list (map weightN cs)"
    by (simp add: member_le_sum_list)
  with OtherNode show ?thesis by simp
qed

text \<open>
  \<open>ast.Inspect(node, f)\<close> walks the tree depth first: it calls \<open>f(node)\<close>; when that
  returns true it inspects each child in turn and then calls \<open>f(nil)\<close>; when it returns
  false the children of \<open>node\<close> are skipped, and the walk goes on with whatever follows
  \<open>node\<close> in its parent. The state that the closure \<open>f\<close> changes is passed along.
\<close>

function Inspect :: "ast_Node \<Rightarrow> (ast_Node option \<Rightarrow> 's \<Rightarrow> bool \<times> 's) \<Rightarrow> 's \<Rightarrow> 's" where
  "Inspect node f s =
     (case f (Some node) s of
        (False, s1) \<Rightarrow> s1
      | (True, s1) \<Rightarrow> snd (f None (fold (\<lambda>c. Inspect c f) (children node) s1)))"
  by pat_completeness auto
termination
  by (relation "measure (\<lambda>(node, f, s). weightN node)") (auto simp: weight_children)

declare Inspect.simps [simp del]

definition getStruct :: "ast_Node \<Rightarrow> ast_Field list option" where
  "getStruct nodeType =
     (case nodeType of
        ExprNode (StructType fl) \<Rightarrow> Some fl
      | _ \<Rightarrow> None)"

text \<open>
  What \<open>Parse\<close> can fail with, and what it reads from outside: the file system
  (\<open>ioutil.ReadFile\<close>), the Go parser (\<open>parser.ParseFile\<close>), \<open>strconv.Unquote\<close> and the
  Unicode branch of \<open>strings.ToUpper\<close>.
\<close>

datatype error = IOError string | SyntaxError string

record Env =
  ReadFile :: "string \<Rightarrow> error + string"
  ParseFile :: "string \<Rightarrow> string \<Rightarrow> error + ast_File"
  Unquote :: "string \<Rightarrow> string option"
  MapToUpper :: "string \<Rightarrow> string"

text \<open>
  The closure that \<open>Parse\<close> hands to \<open>ast.Inspect\<close>. It reads and writes the receiver
  \<open>t\<close> and reads the parsed file \<open>f\<close>; its result is the answer to "go on into the
  children?" and the new \<open>t\<close>.
\<close>

definition Parse_func ::
  "(string \<Rightarrow> string option) \<Rightarrow> (string \<Rightarrow> string) \<Rightarrow> ast_File \<Rightarrow> ast_Node option \<Rightarrow> Type
     \<Rightarrow> bool \<times> Type" where
  "Parse_func unq upr f node t =
     (case node of
        Some (TypeSpec name typ) \<Rightarrow>
          (case getStruct (ExprNode typ) of
             Some fl \<Rightarrow>
               if Name t = name
               then (False, t\<lparr>Package := file_Name f, Fields := getFields unq upr fl\<rparr>)
               else (True, t)
           | None \<Rightarrow> (True, t))
      | _ \<Rightarrow> (True, t))"

text \<open>
  \<open>Parse\<close> returns the error (\<open>None\<close> for \<open>nil\<close>) together with the receiver as the
  call leaves it.
\<close>

definition Parse :: "Env \<Rightarrow> Type \<Rightarrow> string \<Rightarrow> error option \<times> Type" where
  "Parse env t fileName =
     (let t1 = t\<lparr>FileName := fileName\<rparr> in
      case ReadFile env fileName of
        Inl err \<Rightarrow> (Some err, t1)
      | Inr content \<Rightarrow>
          (case ParseFile env fileName content of
             Inl err \<Rightarrow> (Some err, t1)
           | Inr f \<Rightarrow>
               (None, Inspect (FileNode (file_Name f) (file_Decls f))
                        (Parse_func (Unquote env) (MapToUpper env) f) t1)))"

section \<open>What a file contains\<close>

text \<open>
  Independent of the walk: all the nodes of a tree, the names of the struct types
  declared anywhere in it, and the field list of the struct type that the walk of
  \<open>Parse\<close> leaves in the receiver (the last one visited).
\<close>

function allNodes :: "ast_Node \<Rightarrow> ast_Node list" where
  "allNodes node = node # concat (map allNodes (children node))"
  by pat_completeness auto
termination
  by (relation "measure weightN") (auto simp: weight_children)

declare allNodes.simps [simp del]

definition structTypeNames :: "ast_Node \<Rightarrow> string list" where
  "structTypeNames root =
     concat (map (\<lambda>n. case n of
                         TypeSpec name (StructType fl) \<Rightarrow> [name]
                       | _ \<Rightarrow> [])
                 (allNodes root))"

function lastMatch :: "string \<Rightarrow> ast_Node \<Rightarrow> ast_Field list option" where
  "lastMatch name node =
     (case (case node of
              TypeSpec nm (StructType fl) \<Rightarrow> if name = nm then Some fl else None
            | _ \<Rightarrow> None) of
        Some fl \<Rightarrow> Some fl
      | None \<Rightarrow>
          fold (\<lambda>c found. case lastMatch name c of None \<Rightarrow> found | Some fl \<Rightarrow> Some fl)
               (children node) None)"
  by pat_completeness auto
termination
  by (relation "measure (\<lambda>(name, node). weightN node)") (auto simp: weight_children)

declare lastMatch.simps [simp del]

section \<open>The normalizer, field by field\<close>

text \<open>
  The loop of \<open>getFields\<close> only ever appends, so its result is the concatenation of what
  each field declaration contributes on its own.
\<close>

lemma getFields_body_append:
  "getFields_body unq upr flds fd = flds @ getFields_body unq upr [] fd"
proof -
  have step: "\<And>g acc ns. foldl (\<lambda>a n. a @ [g n]) acc ns = acc @ map g ns"
  proof -
    fix g :: "'a \<Rightarrow> 'b" and acc ns
    show "foldl (\<lambda>a n. a @ [g n]) acc ns = acc @ map g ns"
      by (induction ns arbitrary: acc) simp_all
  qed
  show ?thesis
    by (simp add: getFields_body_def Let_def step)
qed

lemma getFields_body_Nil:
  "getFields_body unq upr [] (AstField names ty tag) =
     (if names = [] then
        [\<lparr>Field.Name = [], Type = cleanTypeStr (ExprString ty),
          EnvTag = getEnvSourceTag unq upr (case tag of None \<Rightarrow> [] | Some v \<Rightarrow> Trim v ''`'') (ExprString ty),
          IsPointer = isPointer (ExprString ty), IsArray = isArray (ExprString ty)\<rparr>]
      else
        map (\<lambda>n. \<lparr>Field.Name = n, Type = cleanTypeStr (ExprString ty),
                  EnvTag = getEnvSourceTag unq upr (case tag of None \<Rightarrow> [] | Some v \<Rightarrow> Trim v ''`'') n,
                  IsPointer = isPointer (ExprString ty), IsArray = isArray (ExprString ty)\<rparr>) names)"
proof -
  have step: "\<And>g acc ns. foldl (\<lambda>a n. a @ [g n]) acc ns = acc @ map g ns"
  proof -
    fix g :: "'a \<Rightarrow> 'b" and acc ns
    show "foldl (\<lambda>a n. a @ [g n]) acc ns = acc @ map g ns"
      by (induction ns arbitrary: acc) simp_all
  qed
  show ?thesis
    by (simp add: getFields_body_def Let_def step)
qed

lemma getFields_foldl:
  "foldl (getFields_body unq upr) acc fl = acc @ concat (map (getFields_body unq upr []) fl)"
proof (induction fl arbitrary: acc)
  case Nil
  show ?case by simp
next
  case (Cons fd fl)
  show ?case
    using Cons.IH [of "getFields_body unq upr acc fd"] getFields_body_append [of unq upr acc fd]
    by simp
qed

lemma getFields_concat:
  "getFields unq upr fl = concat (map (getFields_body unq upr []) fl)"
  by (simp add: getFields_def getFields_foldl)

lemma getFields_append:
  "getFields unq upr (xs @ ys) = getFields unq upr xs @ getFields unq upr ys"
  by (simp add: getFields_concat)

lemma isPointer_iff: "isPointer s = (s \<noteq> [] \<and> hd s = CHR ''*'')"
  by (cases s) (simp_all add: isPointer_def)

lemma isArray_iff: "isArray s = (3 \<le> length s \<and> take 2 s = ''[]'')"
  by (auto simp: isArray_def)

section \<open>The walk of \<open>Parse\<close>, characterised\<close>

text \<open>
  \<open>populate\<close> is the assignment the closure makes on a match. The walk of \<open>Parse\<close> over any
  tree amounts to one such assignment, for the struct type that \<open>lastMatch\<close> finds, or to
  nothing when there is none.
\<close>

definition populate ::
  "(string \<Rightarrow> string option) \<Rightarrow> (string \<Rightarrow> string) \<Rightarrow> ast_File \<Rightarrow> ast_Field list option \<Rightarrow> Type
     \<Rightarrow> Type" where
  "populate unq upr f found t =
     (case found of
        None \<Rightarrow> t
      | Some fl \<Rightarrow> t\<lparr>Package := file_Name f, Fields := getFields unq upr fl\<rparr>)"

lemma Name_populate: "Name (populate unq upr f found t) = Name t"
  by (simp add: populate_def split: option.splits)

lemma populate_populate:
  "populate unq upr f found' (populate unq upr f found t) =
     populate unq upr f (case found' of None \<Rightarrow> found | Some fl \<Rightarrow> Some fl) t"
  by (simp add: populate_def split: option.splits)

lemma Parse_func_None: "Parse_func unq upr f None t = (True, t)"
  by (simp add: Parse_func_def)

lemma fold_Inspect_populate:
  assumes IH: "\<And>c t. c \<in> set cs \<Longrightarrow> Name t = name \<Longrightarrow>
                 Inspect c (Parse_func unq upr f) t = populate unq upr f (lastMatch name c) t"
    and nm: "Name t = name"
  shows "fold (\<lambda>c. Inspect c (Parse_func unq upr f)) cs (populate unq upr f found t) =
         populate unq upr f
           (fold (\<lambda>c found. case lastMatch name c of None \<Rightarrow> found | Some fl \<Rightarrow> Some fl) cs found) t"
  using IH
proof (induction cs arbitrary: found)
  case Nil
  show ?case by simp
next
  case (Cons c cs)
  have "Inspect c (Parse_func unq upr f) (populate unq upr f found t) =
        populate unq upr f (lastMatch name c) (populate unq upr f found t)"
    using Cons.prems [of c "populate unq upr f found t"] nm by (simp add: Name_populate)
  also have "\<dots> = populate unq upr f (case lastMatch name c of None \<Rightarrow> found | Some fl \<Rightarrow> Some fl) t"
    by (rule populate_populate)
  finally have step: "Inspect c (Parse_func unq upr f) (populate unq upr f found t) =
        populate unq upr f (case lastMatch name c of None \<Rightarrow> found | Some fl \<Rightarrow> Some fl) t" .
  have "\<And>c' t'. c' \<in> set cs \<Longrightarrow> Name t' = name \<Longrightarrow>
          Inspect c' (Parse_func unq upr f) t' = populate unq upr f (lastMatch name c') t'"
    using Cons.prems by simp
  from Cons.IH [OF this] show ?case
    by (simp add: step)
qed

lemma Inspect_Parse_func:
  "Name t = name \<Longrightarrow>
   Inspect node (Parse_func unq upr f) t = populate unq upr f (lastMatch name node) t"
proof (induction name node arbitrary: t rule: lastMatch.induct)
  case (1 name node)
  let ?here = "case node of
                 TypeSpec nm (StructType fl) \<Rightarrow> if name = nm then Some fl else None
               | _ \<Rightarrow> None"
  show ?case
  proof (cases ?here)
    case (Some fl)
    then obtain nm where node: "node = TypeSpec nm (StructType fl)" and eq: "name = nm"
      by (auto split: ast_Node.splits ast_Expr.splits if_splits)
    have "lastMatch name node = Some fl"
      using Some by (subst lastMatch.simps) simp
    moreover have "Inspect node (Parse_func unq upr f) t =
                   t\<lparr>Package := file_Name f, Fields := getFields unq upr fl\<rparr>"
      using node eq "1.prems"
      by (subst Inspect.simps) (simp add: Parse_func_def getStruct_def)
    ultimately show ?thesis by (simp add: populate_def)
  next
    case None
    have visit: "Parse_func unq upr f (Some node) t = (True, t)"
      using None "1.prems"
      by (auto simp: Parse_func_def getStruct_def split: ast_Node.splits ast_Expr.splits if_splits)
    have IH: "\<And>c t. c \<in> set (children node) \<Longrightarrow> Name t = name \<Longrightarrow>
               Inspect c (Parse_func unq upr f) t = populate unq upr f (lastMatch name c) t"
      using "1.IH" [OF None] by blast
    have "fold (\<lambda>c. Inspect c (Parse_func unq upr f)) (children node) (populate unq upr f None t) =
          populate unq upr f
            (fold (\<lambda>c found. case lastMatch name c of None \<Rightarrow> found | Some fl \<Rightarrow> Some fl)
               (children node) None) t"
      using IH "1.prems" by (rule fold_Inspect_populate)
    moreover have "populate unq upr f None t = t" by (simp add: populate_def)
    moreover have "lastMatch name node =
          fold (\<lambda>c found. case lastMatch name c of None \<Rightarrow> found | Some fl \<Rightarrow> Some fl)
               (children node) None"
      using None by (subst lastMatch.simps) simp
    ultimately show ?thesis
      by (subst Inspect.simps) (simp add: visit Parse_func_None)
  qed
qed


lemma getFields_single:
  "getFields unq upr [fd] = getFields_body unq upr [] fd"
  by (simp add: getFields_concat)

lemma flags_body:
  "map (\<lambda>r. (IsPointer r, IsArray r, Type r)) (getFields_body unq upr [] fd) =
     replicate (max 1 (length (field_Names fd)))
       (isPointer (ExprString (field_Type fd)), isArray (ExprString (field_Type fd)),
        cleanTypeStr (ExprString (field_Type fd)))"
proof (cases fd)
  case (AstField names ty tag)
  show ?thesis
  proof (cases "names = []")
    case True
    with AstField show ?thesis by (simp add: getFields_body_Nil)
  next
    case False
    then have "max 1 (length names) = length names"
      by (cases names) simp_all
    with False AstField show ?thesis
      by (simp add: getFields_body_Nil comp_def map_replicate_const)
  qed
qed

section \<open>Properties of the field normalizer\<close>

text \<open>
  Claim C4. For every field of a struct, \<open>IsPointer\<close> and \<open>IsArray\<close> are computed from the
  type string as \<open>types.ExprString\<close> renders it, before any cleaning: \<open>IsPointer\<close> holds
  iff that string is not empty and its first byte is \<open>*\<close>; \<open>IsArray\<close> holds iff it has at
  least three bytes and its first two are \<open>[]\<close>. One pair of flags is produced per name
  of the declaration (one for an embedded field).
\<close>

theorem getFields_flags_from_unstripped:
  "map (\<lambda>r. (IsPointer r, IsArray r)) (getFields unq upr fl) =
     concat (map (\<lambda>fd. replicate (max 1 (length (field_Names fd)))
                          (ExprString (field_Type fd) \<noteq> []
                             \<and> hd (ExprString (field_Type fd)) = CHR ''*'',
                           3 \<le> length (ExprString (field_Type fd))
                             \<and> take 2 (ExprString (field_Type fd)) = ''[]'')) fl)"
proof -
  have one: "map (\<lambda>r. (IsPointer r, IsArray r)) (getFields_body unq upr [] fd) =
             replicate (max 1 (length (field_Names fd)))
               (ExprString (field_Type fd) \<noteq> [] \<and> hd (ExprString (field_Type fd)) = CHR ''*'',
                3 \<le> length (ExprString (field_Type fd))
                  \<and> take 2 (ExprString (field_Type fd)) = ''[]'')" for fd
  proof -
    have "map (\<lambda>r. (IsPointer r, IsArray r)) (getFields_body unq upr [] fd) =
          map (\<lambda>(p, a, ty). (p, a)) (map (\<lambda>r. (IsPointer r, IsArray r, Type r)) (getFields_body unq upr [] fd))"
      by (simp add: comp_def)
    also have "\<dots> = replicate (max 1 (length (field_Names fd)))
                       (isPointer (ExprString (field_Type fd)), isArray (ExprString (field_Type fd)))"
      by (simp only: flags_body map_replicate) simp
    finally show ?thesis by (simp only: isPointer_iff isArray_iff)
  qed
  show ?thesis
    by (simp only: getFields_concat map_concat map_map comp_def one)
qed

text \<open>The flags of \<open>Port *int\<close>, \<open>Tags, Labels []string\<close> and an embedded \<open>x\<close>.\<close>

theorem getFields_flags_from_unstripped_witness:
  "map (\<lambda>r. (IsPointer r, IsArray r, Type r))
     (getFields UnquoteNoEscape MapToUpperLatin1
        [AstField [''Port''] (StarExpr (Ident ''int'')) None,
         AstField [''Tags'', ''Labels''] (ArrayType None (Ident ''string'')) None,
         AstField [] (Ident ''x'') None])
   = [(True, False, ''int''), (False, True, ''string''), (False, True, ''string''), (False, False, ''x'')]"
  using getFields_flags_from_unstripped [of UnquoteNoEscape MapToUpperLatin1
        "[AstField [''Port''] (StarExpr (Ident ''int'')) None,
         AstField [''Tags'', ''Labels''] (ArrayType None (Ident ''string'')) None,
         AstField [] (Ident ''x'') None]"]
  by code_simp


text \<open>
  Claim C5. A field declaration with N \<ge> 1 names sharing one type yields exactly N
  records, in the order of the names, between the records of the declarations before
  and after it; they all have the same \<open>Type\<close>, \<open>IsPointer\<close> and \<open>IsArray\<close>, and each
  one's \<open>EnvTag\<close> is derived from its own name. In particular \<open>a, b string\<close> without a
  tag yields two records of type \<open>string\<close>, both flags false, with \<open>EnvTag\<close> \<open>A\<close> and \<open>B\<close>.
\<close>

theorem getFields_grouped_names:
  assumes "names \<noteq> []"
  shows "getFields unq upr (before @ [AstField names ty tag] @ after) =
           getFields unq upr before
           @ map (\<lambda>n. \<lparr>Field.Name = n,
                       Type = cleanTypeStr (ExprString ty),
                       EnvTag = getEnvSourceTag unq upr
                                  (case tag of None \<Rightarrow> [] | Some v \<Rightarrow> Trim v ''`'') n,
                       IsPointer = isPointer (ExprString ty),
                       IsArray = isArray (ExprString ty)\<rparr>) names
           @ getFields unq upr after
         \<and> getFields unq upr [AstField [''a'', ''b''] (Ident ''string'') None] =
             [\<lparr>Field.Name = ''a'', Type = ''string'', EnvTag = ''A'',
               IsPointer = False, IsArray = False\<rparr>,
              \<lparr>Field.Name = ''b'', Type = ''string'', EnvTag = ''B'',
               IsPointer = False, IsArray = False\<rparr>]"
proof
  show "getFields unq upr (before @ [AstField names ty tag] @ after) =
           getFields unq upr before
           @ map (\<lambda>n. \<lparr>Field.Name = n,
                       Type = cleanTypeStr (ExprString ty),
                       EnvTag = getEnvSourceTag unq upr
                                  (case tag of None \<Rightarrow> [] | Some v \<Rightarrow> Trim v ''`'') n,
                       IsPointer = isPointer (ExprString ty),
                       IsArray = isArray (ExprString ty)\<rparr>) names
           @ getFields unq upr after"
    using assms by (simp add: getFields_append getFields_concat getFields_body_Nil)
next
  have up: "ToUpper upr ''a'' = ''A''" "ToUpper upr ''b'' = ''B''" by code_simp+
  have cl: "cleanTypeStr ''string'' = ''string''" by code_simp
  have fl: "isPointer ''string'' = False" "isArray ''string'' = False" by code_simp+
  show "getFields unq upr [AstField [''a'', ''b''] (Ident ''string'') None] =
             [\<lparr>Field.Name = ''a'', Type = ''string'', EnvTag = ''A'',
               IsPointer = False, IsArray = False\<rparr>,
              \<lparr>Field.Name = ''b'', Type = ''string'', EnvTag = ''B'',
               IsPointer = False, IsArray = False\<rparr>]"
    by (simp add: getFields_concat getFields_body_Nil getEnvSourceTag_def Lookup_Nil up cl fl)
qed

theorem getFields_grouped_names_witness:
  \<open>[''Host'', ''Addr''] \<noteq> ([] :: string list)
   \<and> getFields UnquoteNoEscape MapToUpperLatin1
       ([AstField [''n''] (Ident ''int'') None]
        @ [AstField [''Host'', ''Addr''] (StarExpr (Ident ''string'')) (Some ''`json:"h"`'')]
        @ [AstField [] (Ident ''T'') None]) =
     [\<lparr>Field.Name = ''n'', Type = ''int'', EnvTag = ''N'', IsPointer = False, IsArray = False\<rparr>,
      \<lparr>Field.Name = ''Host'', Type = ''string'', EnvTag = ''HOST'', IsPointer = True, IsArray = False\<rparr>,
      \<lparr>Field.Name = ''Addr'', Type = ''string'', EnvTag = ''ADDR'', IsPointer = True, IsArray = False\<rparr>,
      \<lparr>Field.Name = [], Type = ''T'', EnvTag = ''T'', IsPointer = False, IsArray = False\<rparr>]\<close>
proof -
  have ne: "[''Host'', ''Addr''] \<noteq> ([] :: string list)" by simp
  have pre: "getFields UnquoteNoEscape MapToUpperLatin1 [AstField [''n''] (Ident ''int'') None] =
             [\<lparr>Field.Name = ''n'', Type = ''int'', EnvTag = ''N'', IsPointer = False, IsArray = False\<rparr>]"
    by code_simp
  have post: "getFields UnquoteNoEscape MapToUpperLatin1 [AstField [] (Ident ''T'') None] =
             [\<lparr>Field.Name = [], Type = ''T'', EnvTag = ''T'', IsPointer = False, IsArray = False\<rparr>]"
    by code_simp
  have up: "ToUpper MapToUpperLatin1 ''Host'' = ''HOST''" "ToUpper MapToUpperLatin1 ''Addr'' = ''ADDR''" by code_simp+
  have cl: "cleanTypeStr ''*string'' = ''string''" by code_simp
  have fl: "isPointer ''*string'' = True" "isArray ''*string'' = False" by code_simp+
  have tg: \<open>Lookup UnquoteNoEscape (Trim ''`json:"h"`'' ''`'') ''env'' = None\<close> by code_simp
  from getFields_grouped_names [OF ne, of UnquoteNoEscape MapToUpperLatin1
         "[AstField [''n''] (Ident ''int'') None]" "StarExpr (Ident ''string'')"
         \<open>Some ''`json:"h"`''\<close> "[AstField [] (Ident ''T'') None]"]
  show ?thesis
    by (simp add: pre post up cl fl tg getEnvSourceTag_def)
qed



subsection \<open>Tags in the conventional form\<close>



fun closedBody :: "string \<Rightarrow> bool" where
  "closedBody [] = True"
| "closedBody [c] = (c \<noteq> CHR 0x22 \<and> c \<noteq> CHR 0x5C)"
| "closedBody (c # d # ds) =
     (if c = CHR 0x22 then False
      else if c = CHR 0x5C then closedBody ds
      else closedBody (d # ds))"

definition escapeFree :: "string \<Rightarrow> bool" where
  "escapeFree v =
     list_all (\<lambda>c. c \<noteq> CHR 0x22 \<and> c \<noteq> CHR 0x5C \<and> c \<noteq> CHR 0x0A \<and> (of_char c :: nat) < 128) v"


lemma escapeFree_closedBody: "escapeFree v \<Longrightarrow> closedBody v"
  by (induction v rule: closedBody.induct) (auto simp: escapeFree_def)













lemma TrimSpace_Cons:
  assumes "\<not> isSpace c"
  shows "TrimSpace (c # r) = c # rev (dropWhile isSpace (rev r))"
proof -
  have "dropWhile isSpace (rev r @ [c]) = dropWhile isSpace (rev r) @ [c]"
    using assms by (simp add: dropWhile_append)
  with assms show ?thesis by (simp add: TrimSpace_def)
qed

lemma cleanTypeStr_bracket:
  "cleanTypeStr (CHR ''['' # r) = TrimLeft (tl (TrimSpace (CHR ''['' # r))) ''[]''"
proof -
  have ns: "\<not> isSpace CHR ''[''" by (simp add: isSpace_def)
  show ?thesis
    by (simp add: cleanTypeStr_def TrimSpace_Cons [OF ns] TrimLeft_def)
qed

text \<open>
  Claim C10. For every field whose rendered type begins with \<open>[\<close> and whose second byte
  is not \<open>]\<close> (a fixed-size array such as \<open>[5]int\<close>), \<open>IsArray\<close> and \<open>IsPointer\<close> are both
  false, and the cleaned \<open>Type\<close> is the trimmed string without its leading \<open>[\<close>, from which
  the trim of the byte set \<open>[\<close>, \<open>]\<close> has gone on removing any further such bytes:
  \<open>[5]int\<close> is cleaned to \<open>5]int\<close>.
\<close>

theorem getFields_fixed_size_array:
  assumes "ExprString (field_Type fd) = CHR ''['' # c # rest" and "c \<noteq> CHR '']''"
  shows "map (\<lambda>r. (IsPointer r, IsArray r, Type r)) (getFields unq upr [fd]) =
           replicate (max 1 (length (field_Names fd)))
             (False, False, TrimLeft (tl (TrimSpace (ExprString (field_Type fd)))) ''[]'')"
proof -
  have "isPointer (CHR ''['' # c # rest) = False"
    by (simp add: isPointer_def)
  moreover have "isArray (CHR ''['' # c # rest) = False"
    using assms(2) by (simp add: isArray_def)
  ultimately show ?thesis
    using assms(1) by (simp add: getFields_single flags_body cleanTypeStr_bracket)
qed

theorem getFields_fixed_size_array_witness:
  "ExprString (field_Type (AstField [''buf''] (ArrayType (Some (BasicLit ''5'')) (Ident ''int'')) None))
     = CHR ''['' # CHR ''5'' # '']int''
   \<and> CHR ''5'' \<noteq> CHR '']''
   \<and> map (\<lambda>r. (IsPointer r, IsArray r, Type r))
         (getFields UnquoteNoEscape MapToUpperLatin1
            [AstField [''buf''] (ArrayType (Some (BasicLit ''5'')) (Ident ''int'')) None]) =
       [(False, False, ''5]int'')]"
proof -
  let ?fd = "AstField [''buf''] (ArrayType (Some (BasicLit ''5'')) (Ident ''int'')) None"
  have r: "ExprString (field_Type ?fd) = CHR ''['' # CHR ''5'' # '']int''" by simp
  have c: "CHR ''5'' \<noteq> CHR '']''" by simp
  have cl: "TrimLeft (tl (TrimSpace ''[5]int'')) ''[]'' = ''5]int''" by code_simp
  from getFields_fixed_size_array [OF r c, of UnquoteNoEscape MapToUpperLatin1]
  have "map (\<lambda>r. (IsPointer r, IsArray r, Type r)) (getFields UnquoteNoEscape MapToUpperLatin1 [?fd]) =
          [(False, False, ''5]int'')]"
    by (simp add: cl)
  with r c show ?thesis by simp
qed

text \<open>
  Claim C1, as the spec states it, gives the cleaned \<open>Type\<close> of a field declared \<open>*[]byte\<close>
  as \<open>[]byte\<close>. \<open>cleanTypeStr\<close> removes every leading \<open>*\<close> and then every leading \<open>[\<close> or
  \<open>]\<close>, so the slice marker goes as well.
\<close>

theorem pointer_to_slice_counterexample:
  "ExprString (StarExpr (ArrayType None (Ident ''byte''))) = ''*[]byte''
   \<and> map Type (getFields UnquoteNoEscape MapToUpperLatin1
                  [AstField [''data''] (StarExpr (ArrayType None (Ident ''byte''))) None])
       \<noteq> [''[]byte'']"
  by code_simp

text \<open>
  Claim C1, amended. For every field whose rendered type is \<open>*[]byte\<close>, \<open>IsPointer\<close> is
  true, \<open>IsArray\<close> is false and the cleaned \<open>Type\<close> is \<open>byte\<close>. Cleaning trims the white
  space around the string, then removes all leading \<open>*\<close>, then all leading \<open>[\<close> and \<open>]\<close>,
  once in this order: \<open>**int\<close> is cleaned to \<open>int\<close>, while \<open>[]*int\<close> keeps its inner
  marker and is cleaned to \<open>*int\<close>.
\<close>

theorem getFields_pointer_to_slice:
  assumes "ExprString (field_Type fd) = ''*[]byte''"
  shows "map (\<lambda>r. (IsPointer r, IsArray r, Type r)) (getFields unq upr [fd]) =
           replicate (max 1 (length (field_Names fd))) (True, False, ''byte'')
         \<and> cleanTypeStr typ =
             dropWhile (\<lambda>c. c = CHR ''['' \<or> c = CHR '']'')
               (dropWhile (\<lambda>c. c = CHR ''*'') (TrimSpace typ))
         \<and> cleanTypeStr ''**int'' = ''int''
         \<and> cleanTypeStr ''[]*int'' = ''*int''"
proof (intro conjI)
  have "isPointer ''*[]byte'' = True" "isArray ''*[]byte'' = False"
    "cleanTypeStr ''*[]byte'' = ''byte''"
    by code_simp+
  with assms show "map (\<lambda>r. (IsPointer r, IsArray r, Type r)) (getFields unq upr [fd]) =
           replicate (max 1 (length (field_Names fd))) (True, False, ''byte'')"
    by (simp add: getFields_single flags_body)
next
  show "cleanTypeStr typ =
             dropWhile (\<lambda>c. c = CHR ''['' \<or> c = CHR '']'')
               (dropWhile (\<lambda>c. c = CHR ''*'') (TrimSpace typ))"
    by (simp add: cleanTypeStr_def TrimLeft_def)
next
  show "cleanTypeStr ''**int'' = ''int''" by code_simp
next
  show "cleanTypeStr ''[]*int'' = ''*int''" by code_simp
qed

theorem getFields_pointer_to_slice_witness:
  "ExprString (field_Type (AstField [''data''] (StarExpr (ArrayType None (Ident ''byte''))) None))
     = ''*[]byte''
   \<and> map (\<lambda>r. (IsPointer r, IsArray r, Type r))
         (getFields UnquoteNoEscape MapToUpperLatin1
            [AstField [''data''] (StarExpr (ArrayType None (Ident ''byte''))) None]) =
       [(True, False, ''byte'')]"
proof -
  let ?fd = "AstField [''data''] (StarExpr (ArrayType None (Ident ''byte''))) None"
  have r: "ExprString (field_Type ?fd) = ''*[]byte''" by simp
  from getFields_pointer_to_slice [OF r, of UnquoteNoEscape MapToUpperLatin1]
  have "map (\<lambda>r. (IsPointer r, IsArray r, Type r)) (getFields UnquoteNoEscape MapToUpperLatin1 [?fd]) =
          [(True, False, ''byte'')]"
    by simp
  with r show ?thesis by simp
qed


section \<open>Example files\<close>

text \<open>
  Five Go files with the trees \<open>parser.ParseFile\<close> yields for them, and a file system
  that holds them: \<open>config.go\<close> is the scenario of the specification; \<open>shadow.go\<close> has a
  local type with the name of a top-level one; \<open>nested.go\<close> has a local struct type only;
  \<open>kinds.go\<close> has declarations of other kinds; \<open>broken.go\<close> does not parse. Every other
  path is an unreadable file.
\<close>

definition scenarioSource :: string where
  \<open>scenarioSource =
     ''package main; type Config struct { Host string `env:"HOST_NAME"`; Port *int; Tags []string }''\<close>

definition scenarioFile :: ast_File where
  \<open>scenarioFile =
     AstFile ''main''
       [GenDecl [TypeSpec ''Config'' (StructType
          [AstField [''Host''] (Ident ''string'') (Some ''`env:"HOST_NAME"`''),
           AstField [''Port''] (StarExpr (Ident ''int'')) None,
           AstField [''Tags''] (ArrayType None (Ident ''string'')) None])]]\<close>

definition shadowSource :: string where
  "shadowSource =
     ''package main; type Config struct { A int }; func f() { type Config struct { B string } }''"

definition shadowFile :: ast_File where
  "shadowFile =
     AstFile ''main''
       [GenDecl [TypeSpec ''Config'' (StructType [AstField [''A''] (Ident ''int'') None])],
        FuncDecl [] ''f'' (OtherExpr ''func()'' [FieldList []])
          (Some (BlockStmt [DeclStmt (GenDecl
             [TypeSpec ''Config'' (StructType [AstField [''B''] (Ident ''string'') None])])]))]"

definition nestedSource :: string where
  "nestedSource = ''package main; func f() { type Config struct { B string } }''"

definition nestedFile :: ast_File where
  "nestedFile =
     AstFile ''main''
       [FuncDecl [] ''f'' (OtherExpr ''func()'' [FieldList []])
          (Some (BlockStmt [DeclStmt (GenDecl
             [TypeSpec ''Config'' (StructType [AstField [''B''] (Ident ''string'') None])])]))]"

definition kindsSource :: string where
  "kindsSource =
     ''package kinds; type Config interface { Get() string }; type config struct { A int }; type Port int''"

definition kindsFile :: ast_File where
  "kindsFile =
     AstFile ''kinds''
       [GenDecl [TypeSpec ''Config'' (OtherExpr ''interface{Get() string}''
          [FieldList [AstField [''Get'']
             (OtherExpr ''func() string''
                [FieldList [], FieldList [AstField [] (Ident ''string'') None]]) None]])],
        GenDecl [TypeSpec ''config'' (StructType [AstField [''A''] (Ident ''int'') None])],
        GenDecl [TypeSpec ''Port'' (Ident ''int'')]]"

definition brokenSource :: string where
  "brokenSource = ''package''"

definition exampleEnv :: Env where
  "exampleEnv =
     \<lparr>ReadFile = (\<lambda>path.
        if path = ''config.go'' then Inr scenarioSource
        else if path = ''shadow.go'' then Inr shadowSource
        else if path = ''nested.go'' then Inr nestedSource
        else if path = ''kinds.go'' then Inr kindsSource
        else if path = ''broken.go'' then Inr brokenSource
        else Inl (IOError (''open '' @ path @ '': no such file or directory''))),
      ParseFile = (\<lambda>path src.
        if src = scenarioSource then Inr scenarioFile
        else if src = shadowSource then Inr shadowFile
        else if src = nestedSource then Inr nestedFile
        else if src = kindsSource then Inr kindsFile
        else Inl (SyntaxError (path @ '':1:8: expected IDENT, found EOF''))),
      Unquote = UnquoteNoEscape,
      MapToUpper = MapToUpperLatin1\<rparr>"


text \<open>The names of the types declared at the top level of a file.\<close>

definition topLevelTypeNames :: "ast_File \<Rightarrow> string list" where
  "topLevelTypeNames f =
     concat (map (\<lambda>d. case d of
                         GenDecl specs \<Rightarrow>
                           concat (map (\<lambda>s. case s of TypeSpec nm _ \<Rightarrow> [nm] | _ \<Rightarrow> []) specs)
                       | _ \<Rightarrow> [])
                 (file_Decls f))"

section \<open>What the walk finds\<close>

lemma set_allNodes:
  "set (allNodes node) = insert node (\<Union>c \<in> set (children node). set (allNodes c))"
  by (subst allNodes.simps) simp

lemma mem_structTypeNames:
  "name \<in> set (structTypeNames root) \<longleftrightarrow>
     (\<exists>fl. TypeSpec name (StructType fl) \<in> set (allNodes root))"
proof
  assume "name \<in> set (structTypeNames root)"
  then obtain n where n: "n \<in> set (allNodes root)"
    and nm: "name \<in> set (case n of TypeSpec nm (StructType fl) \<Rightarrow> [nm] | _ \<Rightarrow> [])"
    by (auto simp: structTypeNames_def)
  from nm obtain fl where "n = TypeSpec name (StructType fl)"
    by (auto split: ast_Node.splits ast_Expr.splits)
  with n show "\<exists>fl. TypeSpec name (StructType fl) \<in> set (allNodes root)" by blast
next
  assume "\<exists>fl. TypeSpec name (StructType fl) \<in> set (allNodes root)"
  then obtain fl where "TypeSpec name (StructType fl) \<in> set (allNodes root)" ..
  then show "name \<in> set (structTypeNames root)"
    by (force simp: structTypeNames_def)
qed

lemma fold_found_None:
  "fold (\<lambda>c found. case g c of None \<Rightarrow> found | Some fl \<Rightarrow> Some fl) cs acc = None \<longleftrightarrow>
     acc = None \<and> (\<forall>c \<in> set cs. g c = None)"
  by (induction cs arbitrary: acc) (auto split: option.splits)

lemma fold_found_Some:
  "fold (\<lambda>c found. case g c of None \<Rightarrow> found | Some fl \<Rightarrow> Some fl) cs acc = Some fl \<Longrightarrow>
     acc = Some fl \<or> (\<exists>c \<in> set cs. g c = Some fl)"
  by (induction cs arbitrary: acc) (auto split: option.splits)

lemma lastMatch_None_iff:
  "lastMatch name node = None \<longleftrightarrow>
     (\<forall>fl. TypeSpec name (StructType fl) \<notin> set (allNodes node))"
proof (induction name node rule: lastMatch.induct)
  case (1 name node)
  let ?here = "case node of
                 TypeSpec nm (StructType fl) \<Rightarrow> if name = nm then Some fl else None
               | _ \<Rightarrow> None"
  show ?case
  proof (cases ?here)
    case (Some fl)
    then have node: "node = TypeSpec name (StructType fl)"
      by (auto split: ast_Node.splits ast_Expr.splits if_splits)
    have "lastMatch name node = Some fl"
      using Some by (subst lastMatch.simps) simp
    moreover have "TypeSpec name (StructType fl) \<in> set (allNodes node)"
      using node by (subst set_allNodes) simp
    ultimately show ?thesis by auto
  next
    case None
    then have self: "node \<noteq> TypeSpec name (StructType fl)" for fl
      by (auto split: ast_Node.splits ast_Expr.splits if_splits)
    have "lastMatch name node = None \<longleftrightarrow>
            (\<forall>c \<in> set (children node). lastMatch name c = None)"
      using None by (subst lastMatch.simps) (simp add: fold_found_None)
    also have "\<dots> \<longleftrightarrow> (\<forall>c \<in> set (children node).
                      \<forall>fl. TypeSpec name (StructType fl) \<notin> set (allNodes c))"
      using "1.IH" [OF None] by blast
    also have "\<dots> \<longleftrightarrow> (\<forall>fl. TypeSpec name (StructType fl) \<notin> set (allNodes node))"
      using self by (subst (2) set_allNodes) auto
    finally show ?thesis .
  qed
qed

lemma lastMatch_Some_mem:
  "lastMatch name node = Some fl \<Longrightarrow> TypeSpec name (StructType fl) \<in> set (allNodes node)"
proof (induction name node rule: lastMatch.induct)
  case (1 name node)
  let ?here = "case node of
                 TypeSpec nm (StructType fl) \<Rightarrow> if name = nm then Some fl else None
               | _ \<Rightarrow> None"
  show ?case
  proof (cases ?here)
    case (Some fl')
    then have node: "node = TypeSpec name (StructType fl')"
      by (auto split: ast_Node.splits ast_Expr.splits if_splits)
    have "lastMatch name node = Some fl'"
      using Some by (subst lastMatch.simps) simp
    with "1.prems" have "fl' = fl" by simp
    with node show ?thesis by (subst set_allNodes) simp
  next
    case None
    have "fold (\<lambda>c found. case lastMatch name c of None \<Rightarrow> found | Some fl \<Rightarrow> Some fl)
               (children node) None = Some fl"
      using None "1.prems" by (subst (asm) lastMatch.simps) simp
    from fold_found_Some [OF this]
    obtain c where c: "c \<in> set (children node)" and "lastMatch name c = Some fl"
      by auto
    with "1.IH" [OF None c] have "TypeSpec name (StructType fl) \<in> set (allNodes c)"
      by simp
    with c show ?thesis by (subst set_allNodes) auto
  qed
qed

lemma Parse_ok:
  assumes "ReadFile env fileName = Inr content"
    and "ParseFile env fileName content = Inr f"
  shows "Parse env t fileName =
           (None, populate (Unquote env) (MapToUpper env) f
                    (lastMatch (Name t) (FileNode (file_Name f) (file_Decls f)))
                    (t\<lparr>FileName := fileName\<rparr>))"
  using assms by (simp add: Parse_def Inspect_Parse_func)

lemma Parse_not_ok:
  "fst (Parse env t fileName) = Some e \<longleftrightarrow>
     (ReadFile env fileName = Inl e
      \<or> (\<exists>content. ReadFile env fileName = Inr content \<and> ParseFile env fileName content = Inl e))"
  by (auto simp: Parse_def Let_def split: sum.splits)

lemma Parse_failed_state:
  "fst (Parse env t fileName) \<noteq> None \<Longrightarrow> snd (Parse env t fileName) = t\<lparr>FileName := fileName\<rparr>"
  by (auto simp: Parse_def Let_def split: sum.splits)

section \<open>Properties of \<open>Parse\<close>\<close>

text \<open>
  Claim C3. When the file is read and parsed without error and no struct type of the
  requested name is declared anywhere in it, \<open>Parse\<close> returns no error and changes
  nothing but \<open>FileName\<close>; on a receiver fresh from \<open>NewType\<close>, \<open>Package\<close> is left empty
  and \<open>Fields\<close> is left the empty sequence.
\<close>

theorem Parse_no_match_is_silent:
  assumes "ReadFile env fileName = Inr content"
    and "ParseFile env fileName content = Inr f"
    and "Name t \<notin> set (structTypeNames (FileNode (file_Name f) (file_Decls f)))"
  shows "Parse env t fileName = (None, t\<lparr>FileName := fileName\<rparr>)
       \<and> Parse env (NewType (Name t)) fileName =
           (None, \<lparr>FileName = fileName, Name = Name t, Fields = [], Package = []\<rparr>)"
proof -
  have "lastMatch (Name t) (FileNode (file_Name f) (file_Decls f)) = None"
    using assms(3) by (simp add: lastMatch_None_iff mem_structTypeNames)
  moreover have "Name (NewType (Name t)) = Name t"
    by (simp add: NewType_def)
  ultimately show ?thesis
    using Parse_ok [OF assms(1,2), of t] Parse_ok [OF assms(1,2), of "NewType (Name t)"]
    by (simp add: populate_def NewType_def)
qed

text \<open>
  \<open>kinds.go\<close> declares an interface named \<open>Config\<close> and a struct named \<open>config\<close>: neither
  is a struct type named \<open>Config\<close>.
\<close>

theorem Parse_no_match_is_silent_witness:
  "ReadFile exampleEnv ''kinds.go'' = Inr kindsSource
   \<and> ParseFile exampleEnv ''kinds.go'' kindsSource = Inr kindsFile
   \<and> Name (NewType ''Config'') \<notin> set (structTypeNames (FileNode (file_Name kindsFile) (file_Decls kindsFile)))
   \<and> Parse exampleEnv (NewType ''Config'') ''kinds.go'' =
       (None, \<lparr>FileName = ''kinds.go'', Name = ''Config'', Fields = [], Package = []\<rparr>)"
proof -
  have r: "ReadFile exampleEnv ''kinds.go'' = Inr kindsSource" by code_simp
  have p: "ParseFile exampleEnv ''kinds.go'' kindsSource = Inr kindsFile" by code_simp
  have n: "Name (NewType ''Config'') \<notin> set (structTypeNames (FileNode (file_Name kindsFile) (file_Decls kindsFile)))"
    by code_simp
  from Parse_no_match_is_silent [OF r p n] r p n show ?thesis
    by (simp add: NewType_def)
qed

text \<open>
  Claim C7 says that on the error path every field but \<open>Name\<close> keeps its value from
  before the call. \<open>FileName\<close> does not: \<open>Parse\<close> assigns it before it reads the file.
\<close>

theorem Parse_error_counterexample:
  "fst (Parse exampleEnv (NewType ''Config'') ''missing.go'') \<noteq> None
   \<and> FileName (snd (Parse exampleEnv (NewType ''Config'') ''missing.go''))
       \<noteq> FileName (NewType ''Config'')"
  by code_simp

text \<open>
  Claim C7, amended. \<open>Parse\<close> fails exactly when reading the file fails or, the file
  being read, parsing it fails, and the error it returns is that of the failed step.
  When it fails no declaration has been inspected: \<open>Name\<close>, \<open>Package\<close> and \<open>Fields\<close> keep
  their values from before the call, and \<open>FileName\<close> is the path given.
\<close>

theorem Parse_error_keeps_Package_and_Fields:
  "(fst (Parse env t fileName) = Some e \<longleftrightarrow>
      (ReadFile env fileName = Inl e
       \<or> (\<exists>content. ReadFile env fileName = Inr content
                      \<and> ParseFile env fileName content = Inl e)))
   \<and> (fst (Parse env t fileName) \<noteq> None \<longrightarrow>
        snd (Parse env t fileName) = t\<lparr>FileName := fileName\<rparr>)"
  using Parse_not_ok [of env t fileName e] Parse_failed_state [of env t fileName]
  by blast

text \<open>A receiver filled by an earlier call, parsed again from a file with a syntax error.\<close>

theorem Parse_error_keeps_Package_and_Fields_witness:
  "ReadFile exampleEnv ''broken.go'' = Inr brokenSource
   \<and> ParseFile exampleEnv ''broken.go'' brokenSource =
       Inl (SyntaxError ''broken.go:1:8: expected IDENT, found EOF'')
   \<and> fst (Parse exampleEnv
             \<lparr>FileName = ''config.go'', Name = ''Config'',
              Fields = [\<lparr>Field.Name = ''Port'', Type = ''int'', EnvTag = ''PORT'',
                         IsPointer = True, IsArray = False\<rparr>],
              Package = ''main''\<rparr> ''broken.go'') =
       Some (SyntaxError ''broken.go:1:8: expected IDENT, found EOF'')
   \<and> snd (Parse exampleEnv
             \<lparr>FileName = ''config.go'', Name = ''Config'',
              Fields = [\<lparr>Field.Name = ''Port'', Type = ''int'', EnvTag = ''PORT'',
                         IsPointer = True, IsArray = False\<rparr>],
              Package = ''main''\<rparr> ''broken.go'') =
       \<lparr>FileName = ''broken.go'', Name = ''Config'',
        Fields = [\<lparr>Field.Name = ''Port'', Type = ''int'', EnvTag = ''PORT'',
                   IsPointer = True, IsArray = False\<rparr>],
        Package = ''main''\<rparr>"
proof -
  let ?t = "\<lparr>FileName = ''config.go'', Name = ''Config'',
              Fields = [\<lparr>Field.Name = ''Port'', Type = ''int'', EnvTag = ''PORT'',
                         IsPointer = True, IsArray = False\<rparr>],
              Package = ''main''\<rparr>"
  let ?e = "SyntaxError ''broken.go:1:8: expected IDENT, found EOF''"
  have r: "ReadFile exampleEnv ''broken.go'' = Inr brokenSource" by code_simp
  have p: "ParseFile exampleEnv ''broken.go'' brokenSource = Inl ?e" by code_simp
  note th = Parse_error_keeps_Package_and_Fields [of exampleEnv ?t "''broken.go''" ?e]
  from th r p have failed: "fst (Parse exampleEnv ?t ''broken.go'') = Some ?e" by blast
  with th have "snd (Parse exampleEnv ?t ''broken.go'') = ?t\<lparr>FileName := ''broken.go''\<rparr>"
    by simp
  with failed r p show ?thesis by simp
qed

text \<open>
  Claim C9. For a fixed file system, parser and file name, \<open>Parse\<close> is a function of the
  receiver, and parsing a second time into the receiver that the first call left gives
  the same error result and the same receiver, field for field.
\<close>

theorem Parse_idempotent:
  "Parse env (snd (Parse env t fileName)) fileName = Parse env t fileName"
proof (cases "ReadFile env fileName")
  case (Inl e)
  then show ?thesis by (simp add: Parse_def)
next
  case (Inr content)
  show ?thesis
  proof (cases "ParseFile env fileName content")
    case (Inl e)
    with Inr show ?thesis by (simp add: Parse_def)
  next
    case f: (Inr f)
    let ?root = "FileNode (file_Name f) (file_Decls f)"
    let ?t1 = "populate (Unquote env) (MapToUpper env) f (lastMatch (Name t) ?root) (t\<lparr>FileName := fileName\<rparr>)"
    have first: "Parse env t fileName = (None, ?t1)"
      by (rule Parse_ok [OF Inr f])
    have nm: "Name ?t1 = Name t" by (simp add: Name_populate)
    have fn: "?t1\<lparr>FileName := fileName\<rparr> = ?t1"
      by (simp add: populate_def split: option.splits)
    have "Parse env ?t1 fileName =
            (None, populate (Unquote env) (MapToUpper env) f (lastMatch (Name ?t1) ?root) (?t1\<lparr>FileName := fileName\<rparr>))"
      by (rule Parse_ok [OF Inr f])
    also have "\<dots> = (None, populate (Unquote env) (MapToUpper env) f (lastMatch (Name t) ?root) ?t1)"
      by (simp only: nm fn)
    also have "\<dots> = (None, ?t1)"
      by (simp add: populate_populate split: option.splits)
    finally show ?thesis by (simp add: first)
  qed
qed


text \<open>The scenario of the specification, parsed twice into the same receiver.\<close>

theorem Parse_idempotent_witness:
  "Parse exampleEnv (snd (Parse exampleEnv (NewType ''Config'') ''config.go'')) ''config.go'' =
     (None,
      \<lparr>FileName = ''config.go'', Name = ''Config'',
       Fields =
         [\<lparr>Field.Name = ''Host'', Type = ''string'', EnvTag = ''HOST_NAME'',
           IsPointer = False, IsArray = False\<rparr>,
          \<lparr>Field.Name = ''Port'', Type = ''int'', EnvTag = ''PORT'',
           IsPointer = True, IsArray = False\<rparr>,
          \<lparr>Field.Name = ''Tags'', Type = ''string'', EnvTag = ''TAGS'',
           IsPointer = False, IsArray = True\<rparr>],
       Package = ''main''\<rparr>)"
proof -
  have "Parse exampleEnv (NewType ''Config'') ''config.go'' =
     (None,
      \<lparr>FileName = ''config.go'', Name = ''Config'',
       Fields =
         [\<lparr>Field.Name = ''Host'', Type = ''string'', EnvTag = ''HOST_NAME'',
           IsPointer = False, IsArray = False\<rparr>,
          \<lparr>Field.Name = ''Port'', Type = ''int'', EnvTag = ''PORT'',
           IsPointer = True, IsArray = False\<rparr>,
          \<lparr>Field.Name = ''Tags'', Type = ''string'', EnvTag = ''TAGS'',
           IsPointer = False, IsArray = True\<rparr>],
       Package = ''main''\<rparr>)"
    by code_simp
  with Parse_idempotent [of exampleEnv "NewType ''Config''" "''config.go''"]
  show ?thesis by simp
qed
text \<open>
  Claim C8 says that only top-level declarations are considered and that declarations
  below the top level are not traversed. \<open>nested.go\<close> has no type declaration at its top
  level; its struct type \<open>Config\<close> is declared inside the function \<open>f\<close>, and \<open>Parse\<close>
  takes \<open>Package\<close> and \<open>Fields\<close> from it.
\<close>

theorem Parse_nested_counterexample:
  "topLevelTypeNames nestedFile = []
   \<and> Parse exampleEnv (NewType ''Config'') ''nested.go'' =
       (None, \<lparr>FileName = ''nested.go'', Name = ''Config'',
                Fields = [\<lparr>Field.Name = ''B'', Type = ''string'', EnvTag = ''B'',
                           IsPointer = False, IsArray = False\<rparr>],
                Package = ''main''\<rparr>)"
  by code_simp

text \<open>
  Claim C8, amended. The type specs considered are those whose type expression is a
  struct type, at every depth of the file (at the top level or inside a function):
  when some type spec anywhere in the tree has a struct type and the requested name,
  \<open>Package\<close> becomes the package name of the file and \<open>Fields\<close> the fields of such a type
  spec; otherwise both are left as they were, whatever other declarations bear the
  name. On a type spec of any other kind the closure changes nothing and lets the walk
  go on.
\<close>

theorem Parse_struct_specs_at_any_depth:
  assumes "ReadFile env fileName = Inr content"
    and "ParseFile env fileName content = Inr f"
  shows "fst (Parse env t fileName) = None
       \<and> (if Name t \<in> set (structTypeNames (FileNode (file_Name f) (file_Decls f)))
          then Package (snd (Parse env t fileName)) = file_Name f
               \<and> (\<exists>fl. TypeSpec (Name t) (StructType fl)
                            \<in> set (allNodes (FileNode (file_Name f) (file_Decls f)))
                        \<and> Fields (snd (Parse env t fileName)) = getFields (Unquote env) (MapToUpper env) fl)
          else Package (snd (Parse env t fileName)) = Package t
               \<and> Fields (snd (Parse env t fileName)) = Fields t)
       \<and> ((\<forall>fl. ty \<noteq> StructType fl) \<longrightarrow>
            Parse_func unq upr g (Some (TypeSpec name ty)) t = (True, t))"
proof (intro conjI)
  let ?root = "FileNode (file_Name f) (file_Decls f)"
  note ok = Parse_ok [OF assms, of t]
  show "fst (Parse env t fileName) = None" by (simp add: ok)
  show "if Name t \<in> set (structTypeNames ?root)
          then Package (snd (Parse env t fileName)) = file_Name f
               \<and> (\<exists>fl. TypeSpec (Name t) (StructType fl) \<in> set (allNodes ?root)
                        \<and> Fields (snd (Parse env t fileName)) = getFields (Unquote env) (MapToUpper env) fl)
          else Package (snd (Parse env t fileName)) = Package t
               \<and> Fields (snd (Parse env t fileName)) = Fields t"
  proof (cases "lastMatch (Name t) ?root")
    case None
    then have "Name t \<notin> set (structTypeNames ?root)"
      by (simp add: lastMatch_None_iff mem_structTypeNames)
    with None show ?thesis by (simp add: ok populate_def)
  next
    case (Some fl)
    then have "TypeSpec (Name t) (StructType fl) \<in> set (allNodes ?root)"
      by (rule lastMatch_Some_mem)
    moreover from this have "Name t \<in> set (structTypeNames ?root)"
      using mem_structTypeNames by blast
    ultimately show ?thesis using Some by (auto simp: ok populate_def)
  qed
  show "(\<forall>fl. ty \<noteq> StructType fl) \<longrightarrow>
          Parse_func unq upr g (Some (TypeSpec name ty)) t = (True, t)"
    by (cases ty) (simp_all add: Parse_func_def getStruct_def)
qed

theorem Parse_struct_specs_at_any_depth_witness:
  "ReadFile exampleEnv ''nested.go'' = Inr nestedSource
   \<and> ParseFile exampleEnv ''nested.go'' nestedSource = Inr nestedFile
   \<and> fst (Parse exampleEnv (NewType ''Config'') ''nested.go'') = None
   \<and> Package (snd (Parse exampleEnv (NewType ''Config'') ''nested.go'')) = ''main''
   \<and> Parse_func UnquoteNoEscape MapToUpperLatin1 nestedFile (Some (TypeSpec ''Config'' (Ident ''int'')))
        (NewType ''Config'') = (True, NewType ''Config'')"
proof -
  have r: "ReadFile exampleEnv ''nested.go'' = Inr nestedSource" by code_simp
  have p: "ParseFile exampleEnv ''nested.go'' nestedSource = Inr nestedFile" by code_simp
  have m: "Name (NewType ''Config'')
             \<in> set (structTypeNames (FileNode (file_Name nestedFile) (file_Decls nestedFile)))"
    by code_simp
  have k: "\<forall>fl. Ident ''int'' \<noteq> StructType fl" by simp
  have pk: "file_Name nestedFile = ''main''" by code_simp
  from Parse_struct_specs_at_any_depth [OF r p, of "NewType ''Config''" "Ident ''int''"
         UnquoteNoEscape MapToUpperLatin1 nestedFile "''Config''"] m k pk r p
  show ?thesis by simp
qed

text \<open>
  Claim C2 says that the search stops at the first struct type whose name is the
  requested one, so that nothing later in the file changes \<open>Package\<close> and \<open>Fields\<close>
  again. In \<open>shadow.go\<close> the only top-level type is \<open>Config\<close>, with the field \<open>A\<close>; the
  function \<open>f\<close> after it declares a local \<open>Config\<close> with the field \<open>B\<close>. Returning false
  from the closure makes \<open>ast.Inspect\<close> skip the children of the matched type spec only:
  the walk goes on, meets the second \<open>Config\<close>, and \<open>Fields\<close> ends up as those of the
  later declaration.
\<close>

theorem Parse_later_match_overwrites:
  "topLevelTypeNames shadowFile = [''Config'']
   \<and> Parse exampleEnv (NewType ''Config'') ''shadow.go'' =
       (None, \<lparr>FileName = ''shadow.go'', Name = ''Config'',
                Fields = [\<lparr>Field.Name = ''B'', Type = ''string'', EnvTag = ''B'',
                           IsPointer = False, IsArray = False\<rparr>],
                Package = ''main''\<rparr>)"
  by code_simp


end
